theory Spec2Isabelle
  imports Main
begin

section \<open>Data model\<close>

text \<open>
  A shallow embedding of \<^verbatim>\<open>flask_loopback/flask_loopback.py\<close>. Python objects become
  records and datatypes, a raised exception becomes a value, and every method takes the
  state it mutates and returns it updated.
\<close>

type_synonym bytes = string

text \<open>The Python values an address argument can be: \<^verbatim>\<open>('localhost', 80)\<close> is
  \<open>PTuple [PStr ''localhost'', PInt 80]\<close>.\<close>

datatype pyobj = PNone | PStr string | PInt int | PTuple "pyobj list"

text \<open>A request body is absent, a byte string, or an object with a \<^verbatim>\<open>read\<close> method
  (the bytes that one full read returns).\<close>

datatype body = NoBody | BodyBytes bytes | BodyStream bytes

record request =
  req_method :: string
  req_url :: string
  req_headers :: "(string \<times> string) list"
  req_body :: body

text \<open>\<^verbatim>\<open>six.BytesIO\<close>: the buffer, the read position and the closed flag.\<close>

record bytesio =
  buffer :: bytes
  pos :: nat
  closed :: bool

text \<open>\<^verbatim>\<open>urllib3.HTTPResponse\<close>, as far as \<^verbatim>\<open>handle_request\<close> fills it.\<close>

record http_response =
  raw_status :: "int option"
  raw_reason :: "string option"
  raw_headers :: "(string \<times> string) list"
  raw_body :: bytesio
  decode_content :: bool
  preload_content :: bool

type_synonym cookie_jar = "string list"

text \<open>\<^verbatim>\<open>requests.Response\<close>. A fresh one has no url, status code, reason, request,
  content or raw reader, and empty headers and cookies.\<close>

record response =
  resp_url :: "string option"
  status_code :: "int option"
  reason :: "string option"
  resp_request :: "request option"
  content :: "bytes option"
  headers :: "(string \<times> string) list"
  raw :: "http_response option"
  cookies :: cookie_jar

definition new_Response :: response where
  "new_Response = \<lparr>resp_url = None, status_code = None, reason = None, resp_request = None,
     content = None, headers = [], raw = None, cookies = []\<rparr>"

text \<open>The exceptions of the module: a failed \<^verbatim>\<open>assert\<close>, the \<^verbatim>\<open>KeyError\<close> of
  \<^verbatim>\<open>set.remove\<close>, the \<^verbatim>\<open>ValueError\<close> of a read from a closed \<^verbatim>\<open>BytesIO\<close>, the
  registry's \<open>NotRegistered\<close>, the short-circuit signal with the response it carries, and
  any other exception of a collaborator.\<close>

datatype exn =
    AssertionError string
  | KeyError pyobj
  | ValueError string
  | NotRegistered pyobj
  | CustomHTTPResponse response
  | OtherError string

section \<open>Activation: the address registry\<close>

text \<open>
  \<^verbatim>\<open>dispatch\<close> holds the process-wide table from addresses to \<open>(handler, ssl)\<close>; a handler
  is named by a number. The module \<^verbatim>\<open>dispatch\<close> is imported by the file and is not part of
  it, so the two functions the file calls are taken as the fields of a record: each gets the
  table and returns what it raised, if anything, and the table afterwards.
\<close>

type_synonym registry = "pyobj \<Rightarrow> (nat \<times> bool) option"

record dispatch_module =
  register_loopback_handler :: "pyobj \<Rightarrow> nat \<Rightarrow> bool \<Rightarrow> registry \<Rightarrow> exn option \<times> registry"
  unregister_loopback_handler :: "pyobj \<Rightarrow> registry \<Rightarrow> exn option \<times> registry"

text \<open>
  The state the activation methods touch: the table of \<^verbatim>\<open>dispatch\<close> and
  \<^verbatim>\<open>self._registered_addresses\<close>. The Python set is a list in the set's iteration order:
  \<^verbatim>\<open>add\<close> of a member changes nothing, \<^verbatim>\<open>remove\<close> of a non-member raises
  \<^verbatim>\<open>KeyError\<close>, \<^verbatim>\<open>next(iter(s))\<close> is the head.
\<close>

record loopback_state =
  registry :: registry
  registered_addresses :: "pyobj list"

definition set_add :: "pyobj \<Rightarrow> pyobj list \<Rightarrow> pyobj list" where
  "set_add x xs = (if x \<in> set xs then xs else xs @ [x])"

definition set_remove :: "pyobj \<Rightarrow> pyobj list \<Rightarrow> exn + pyobj list" where
  "set_remove x xs = (if x \<in> set xs then Inr (removeAll x xs) else Inl (KeyError x))"

text \<open>\<^verbatim>\<open>isinstance(address, tuple) and len(address) == 2\<close>\<close>

definition is_address :: "pyobj \<Rightarrow> bool" where
  "is_address address = (case address of PTuple xs \<Rightarrow> length xs = 2 | _ \<Rightarrow> False)"

definition address_message :: string where
  "address_message = ''Address must be a tuple of the form (host, port)''"

definition activate_address ::
  "dispatch_module \<Rightarrow> nat \<Rightarrow> pyobj \<Rightarrow> bool \<Rightarrow> loopback_state \<Rightarrow> exn option \<times> loopback_state" where
  "activate_address d self address ssl s =
     (if \<not> is_address address then (Some (AssertionError address_message), s)
      else case register_loopback_handler d address self ssl (registry s) of
             (Some e, r) \<Rightarrow> (Some e, s\<lparr>registry := r\<rparr>)
           | (None, r) \<Rightarrow>
               (None, s\<lparr>registry := r,
                         registered_addresses := set_add address (registered_addresses s)\<rparr>))"

definition deactivate_address ::
  "dispatch_module \<Rightarrow> pyobj \<Rightarrow> loopback_state \<Rightarrow> exn option \<times> loopback_state" where
  "deactivate_address d address s =
     (if \<not> is_address address then (Some (AssertionError address_message), s)
      else case unregister_loopback_handler d address (registry s) of
             (Some e, r) \<Rightarrow> (Some e, s\<lparr>registry := r\<rparr>)
           | (None, r) \<Rightarrow>
               (case set_remove address (registered_addresses s) of
                  Inl e \<Rightarrow> (Some e, s\<lparr>registry := r\<rparr>)
                | Inr xs \<Rightarrow> (None, s\<lparr>registry := r, registered_addresses := xs\<rparr>)))"

text \<open>
  \<^verbatim>\<open>while self._registered_addresses: self.deactivate_address(next(iter(...)))\<close>.
  An exception of \<^verbatim>\<open>deactivate_address\<close> leaves the loop. A call that returns has removed
  an element, which is why the loop ends.
\<close>

function deactivate_all :: "dispatch_module \<Rightarrow> loopback_state \<Rightarrow> exn option \<times> loopback_state" where
  "deactivate_all d s =
     (case registered_addresses s of
        [] \<Rightarrow> (None, s)
      | a # _ \<Rightarrow>
          (case deactivate_address d a s of
             (Some e, s') \<Rightarrow> (Some e, s')
           | (None, s') \<Rightarrow> deactivate_all d s'))"
  by pat_completeness auto

termination deactivate_all
proof (relation "measure (\<lambda>(d, s). length (registered_addresses s))")
  show "wf (measure (\<lambda>(d, s). length (registered_addresses s)))"
    by simp
next
  fix d :: dispatch_module and s s' :: loopback_state and a :: pyobj and xs r
  assume nonempty: "registered_addresses s = a # xs"
    and returned: "(r, s') = deactivate_address d a s" "r = None"
  from returned have "a \<in> set (registered_addresses s)"
    and "registered_addresses s' = removeAll a (registered_addresses s)"
    by (auto simp: deactivate_address_def set_remove_def
             split: if_splits prod.splits option.splits sum.splits)
  then show "((d, s'), (d, s)) \<in> measure (\<lambda>(d, s). length (registered_addresses s))"
    by (simp add: length_removeAll_less)
qed

text \<open>
  The scoped activation \<^verbatim>\<open>on\<close>: \<^verbatim>\<open>activate_address\<close>, then the body of the
  \<^verbatim>\<open>with\<close> statement, then \<^verbatim>\<open>deactivate_address\<close> in the \<^verbatim>\<open>finally\<close> clause.
  The body is any code: it changes the state and either completes (also by an early return)
  or raises. An exception of the \<^verbatim>\<open>finally\<close> clause replaces the outcome of the body.
\<close>

definition on ::
  "dispatch_module \<Rightarrow> nat \<Rightarrow> pyobj \<Rightarrow> bool \<Rightarrow> (loopback_state \<Rightarrow> exn option \<times> loopback_state)
     \<Rightarrow> loopback_state \<Rightarrow> exn option \<times> loopback_state" where
  "on d self address ssl scope_body s =
     (case activate_address d self address ssl s of
        (Some e, s1) \<Rightarrow> (Some e, s1)
      | (None, s1) \<Rightarrow>
          (case scope_body s1 of
             (r, s2) \<Rightarrow>
               (case deactivate_address d address s2 of
                  (Some e, s3) \<Rightarrow> (Some e, s3)
                | (None, s3) \<Rightarrow> (r, s3))))"

text \<open>The caller's sequence of activations of one handler, stopping at the first that raises.\<close>

fun activate_each ::
  "dispatch_module \<Rightarrow> nat \<Rightarrow> pyobj list \<Rightarrow> loopback_state \<Rightarrow> exn option \<times> loopback_state" where
  "activate_each d self [] s = (None, s)"
| "activate_each d self (a # as) s =
     (case activate_address d self a False s of
        (Some e, s') \<Rightarrow> (Some e, s')
      | (None, s') \<Rightarrow> activate_each d self as s')"

subsection \<open>The registry of \<^verbatim>\<open>dispatch\<close>\<close>

text \<open>
  Modelled from the spec: \<^verbatim>\<open>dispatch.register_loopback_handler\<close>, which is not among the
  sources. The spec: activation "registers address -> handler globally", and "activating an
  already-active address ... overwrites".
\<close>

definition spec_register :: "pyobj \<Rightarrow> nat \<Rightarrow> bool \<Rightarrow> registry \<Rightarrow> exn option \<times> registry" where
  "spec_register address handler ssl r = (None, r(address \<mapsto> (handler, ssl)))"

text \<open>The two policies the spec leaves open for an address that is not registered.\<close>

datatype absent_policy = FailNotRegistered | NoOp

text \<open>
  Modelled from the spec: \<^verbatim>\<open>dispatch.unregister_loopback_handler\<close>, which is not among the
  sources. The spec: deactivation "removes the global registration" and "fails with
  NotRegistered if address is not currently active (or is a no-op, per policy choice)". Both
  policies are modelled.
\<close>

definition spec_unregister :: "absent_policy \<Rightarrow> pyobj \<Rightarrow> registry \<Rightarrow> exn option \<times> registry" where
  "spec_unregister policy address r =
     (if r address \<noteq> None then (None, r(address := None))
      else case policy of
             FailNotRegistered \<Rightarrow> (Some (NotRegistered address), r)
           | NoOp \<Rightarrow> (None, r))"

text \<open>
  Modelled from the spec: the module \<^verbatim>\<open>dispatch\<close> with the two functions above, under one
  of the two policies.
\<close>

definition spec_dispatch :: "absent_policy \<Rightarrow> dispatch_module" where
  "spec_dispatch policy =
     \<lparr>register_loopback_handler = spec_register,
      unregister_loopback_handler = spec_unregister policy\<rparr>"

section \<open>The body reader\<close>



text \<open>\<^verbatim>\<open>_IOReader(data)\<close>: a \<^verbatim>\<open>BytesIO\<close> over \<open>data\<close>, open, at position 0.\<close>

definition IOReader :: "bytes \<Rightarrow> bytesio" where
  "IOReader data = \<lparr>buffer = data, pos = 0, closed = False\<rparr>"


section \<open>Dispatch of one request\<close>

subsection \<open>Strings and headers\<close>

text \<open>\<^verbatim>\<open>str.upper\<close> and \<^verbatim>\<open>str.lower\<close>, on ASCII.\<close>

definition upper_char :: "char \<Rightarrow> char" where
  "upper_char c =
     (case map_of (zip ''abcdefghijklmnopqrstuvwxyz'' ''ABCDEFGHIJKLMNOPQRSTUVWXYZ'') c of
        Some u \<Rightarrow> u
      | None \<Rightarrow> c)"

definition lower_char :: "char \<Rightarrow> char" where
  "lower_char c =
     (case map_of (zip ''ABCDEFGHIJKLMNOPQRSTUVWXYZ'' ''abcdefghijklmnopqrstuvwxyz'') c of
        Some l \<Rightarrow> l
      | None \<Rightarrow> c)"

definition upper :: "string \<Rightarrow> string" where
  "upper s = map upper_char s"

definition lower :: "string \<Rightarrow> string" where
  "lower s = map lower_char s"

text \<open>\<^verbatim>\<open>s.split(sep, maxsplit)\<close> for a one-character separator: at most \<open>maxsplit\<close>
  cuts, from the left; the list is never empty.\<close>

fun split :: "char \<Rightarrow> nat \<Rightarrow> string \<Rightarrow> string list" where
  "split sep 0 s = [s]"
| "split sep (Suc n) s =
     (if sep \<in> set s
      then takeWhile (\<lambda>c. c \<noteq> sep) s # split sep n (tl (dropWhile (\<lambda>c. c \<noteq> sep) s))
      else [s])"

text \<open>\<^verbatim>\<open>"/{0}".format(url.split("/", 3)[-1])\<close>\<close>

definition app_path :: "string \<Rightarrow> string" where
  "app_path url = ''/'' @ last (split (CHR ''/'') 3 url)"

text \<open>The header collection of the application's response: \<^verbatim>\<open>get\<close> compares names
  without case and gives the first match.\<close>

fun headers_get :: "(string \<times> string) list \<Rightarrow> string \<Rightarrow> string option" where
  "headers_get [] name = None"
| "headers_get ((k, v) # hs) name =
     (if lower k = lower name then Some v else headers_get hs name)"

text \<open>The header collection of \<^verbatim>\<open>requests.Response\<close>: a name compares without case, a
  later value replaces an earlier one in its place, \<^verbatim>\<open>update\<close> sets each pair in turn.\<close>

fun headers_set :: "(string \<times> string) list \<Rightarrow> string \<Rightarrow> string \<Rightarrow> (string \<times> string) list" where
  "headers_set [] k v = [(k, v)]"
| "headers_set ((k', v') # hs) k v =
     (if lower k' = lower k then (k, v) # hs else (k', v') # headers_set hs k v)"

definition update_headers ::
  "(string \<times> string) list \<Rightarrow> (string \<times> string) list \<Rightarrow> (string \<times> string) list" where
  "update_headers hs items = fold (\<lambda>(k, v) acc. headers_set acc k v) items hs"

subsection \<open>Collaborators\<close>

text \<open>The parsed target URL: its text, \<^verbatim>\<open>url.scheme\<close> and \<^verbatim>\<open>url.netloc\<close>.\<close>

record urlobject =
  url_text :: string
  scheme :: string
  netloc :: string

text \<open>The arguments of \<^verbatim>\<open>self._test_client.open\<close>.\<close>

record invocation =
  inv_path :: string
  inv_method :: string
  inv_headers :: "(string \<times> string) list"
  inv_data :: "bytes option"
  inv_remote_addr :: string
  inv_base_url :: string

text \<open>What the application's test client returns.\<close>

record app_response =
  app_status_code :: int
  app_headers :: "(string \<times> string) list"
  app_data :: bytes

text \<open>
  What the module imports and calls: the application's test client (it returns a response or
  raises), the table \<^verbatim>\<open>httplib.responses\<close>, \<^verbatim>\<open>gzip_decompress\<close>, the host name that
  \<^verbatim>\<open>socket.getfqdn\<close> gives, and \<^verbatim>\<open>extract_cookies\<close> of a cookie jar, which reads the
  response through the \<^verbatim>\<open>get_all\<close> it is handed.
\<close>

record environment =
  test_client_open :: "invocation \<Rightarrow> exn + app_response"
  responses :: "int \<Rightarrow> string option"
  gzip_decompress :: "bytes \<Rightarrow> exn + bytes"
  getfqdn :: string
  extract_cookies ::
    "(string \<Rightarrow> string list option \<Rightarrow> string list option) \<Rightarrow> request \<Rightarrow> cookie_jar \<Rightarrow> cookie_jar"

text \<open>The state outside the handler that a dispatch changes: the module's cached host name
  and the cookie jar of the session.\<close>

record process_state =
  hostname_cache :: "string option"
  session_cookies :: cookie_jar

text \<open>\<^verbatim>\<open>_get_hostname\<close>\<close>

definition get_hostname :: "environment \<Rightarrow> string option \<Rightarrow> string \<times> string option" where
  "get_hostname env cache =
     (case cache of None \<Rightarrow> (getfqdn env, Some (getfqdn env)) | Some h \<Rightarrow> (h, Some h))"

text \<open>\<^verbatim>\<open>CustomHTTPResponse(request, code)\<close>: the exception and the response it builds.\<close>

definition new_CustomHTTPResponse :: "environment \<Rightarrow> request \<Rightarrow> int \<Rightarrow> exn" where
  "new_CustomHTTPResponse env request code =
     CustomHTTPResponse
       (new_Response\<lparr>resp_url := Some (req_url request), status_code := Some code,
                     reason := responses env code, resp_request := Some request\<rparr>)"

subsection \<open>The cookie bridge\<close>

text \<open>\<^verbatim>\<open>_MockResponse.getheaders\<close> and \<^verbatim>\<open>_MockResponse.get_all\<close>; \<^verbatim>\<open>x or default\<close>
  is the default when \<open>x\<close> is the empty list.\<close>

definition getheaders :: "app_response \<Rightarrow> string \<Rightarrow> string list" where
  "getheaders resp name =
     (case headers_get (app_headers resp) (lower name) of Some v \<Rightarrow> [v] | None \<Rightarrow> [])"

definition get_all :: "app_response \<Rightarrow> string \<Rightarrow> string list option \<Rightarrow> string list option" where
  "get_all resp name dflt =
     (if getheaders resp name \<noteq> [] then Some (getheaders resp name) else dflt)"

text \<open>\<^verbatim>\<open>_extract_cookies\<close>: the jar of the response, then the jar of the session.\<close>

definition extract_cookies_into ::
  "environment \<Rightarrow> cookie_jar \<Rightarrow> request \<Rightarrow> app_response \<Rightarrow> response \<Rightarrow> response \<times> cookie_jar" where
  "extract_cookies_into env session request raw_response returned =
     (returned\<lparr>cookies := extract_cookies env (get_all raw_response) request (cookies returned)\<rparr>,
      extract_cookies env (get_all raw_response) request session)"

subsection \<open>Intercept handlers and the exit stack\<close>

text \<open>
  A registered handler is called with the request and gives a context manager, which
  \<^verbatim>\<open>enter_context\<close> enters. Either the scope is entered, and its \<^verbatim>\<open>__exit__\<close> is kept
  (given the exception in flight, if any, it returns a truth value or raises), or the
  call or \<^verbatim>\<open>__enter__\<close> raises and nothing is kept.
\<close>

datatype exit_result = ExitReturns bool | ExitRaises exn

datatype scope_entry = Entered "exn option \<Rightarrow> exit_result" | EnterRaises exn

type_synonym handler = "request \<Rightarrow> scope_entry"

type_synonym exit_stack = "(nat \<times> (exn option \<Rightarrow> exit_result)) list"

text \<open>What a dispatch does that its caller can observe from outside: the scope of the
  handler registered at a position is entered or exited, the application is invoked.\<close>

datatype event = EnterScope nat | ExitScope nat | AppOpen invocation

text \<open>\<^verbatim>\<open>register_request_context_handler\<close>\<close>

definition register_request_context_handler :: "handler \<Rightarrow> handler list \<Rightarrow> handler list" where
  "register_request_context_handler h hs = hs @ [h]"

text \<open>How the block of the \<^verbatim>\<open>with\<close> statement ends: a \<^verbatim>\<open>return\<close> or an exception.\<close>

datatype block_outcome = BReturn response | BRaise exn

text \<open>
  The \<^verbatim>\<open>for\<close> loop: the handlers from position \<open>i\<close> on, the exit stack with the newest
  scope first. \<^verbatim>\<open>CustomHTTPResponse\<close> is caught and its response returned; any other
  exception leaves the block.
\<close>

fun enter_handlers ::
  "handler list \<Rightarrow> request \<Rightarrow> nat \<Rightarrow> exit_stack \<Rightarrow> event list
     \<Rightarrow> block_outcome option \<times> exit_stack \<times> event list" where
  "enter_handlers [] request i stack log = (None, stack, log)"
| "enter_handlers (h # hs) request i stack log =
     (case h request of
        Entered ex \<Rightarrow> enter_handlers hs request (Suc i) ((i, ex) # stack) (log @ [EnterScope i])
      | EnterRaises e \<Rightarrow>
          (case e of
             CustomHTTPResponse r \<Rightarrow> (Some (BReturn r), stack, log)
           | _ \<Rightarrow> (Some (BRaise e), stack, log)))"

text \<open>
  \<^verbatim>\<open>ExitStack.__exit__\<close>: the callbacks from the newest on, with the variables \<open>exc\<close>,
  \<open>suppressed_exc\<close> and \<open>pending_raise\<close> of the library. A callback that returns true
  clears the exception in flight; one that raises replaces it.
\<close>

fun ExitStack_exit ::
  "exit_stack \<Rightarrow> exn option \<Rightarrow> bool \<Rightarrow> bool \<Rightarrow> event list
     \<Rightarrow> exn option \<times> bool \<times> bool \<times> event list" where
  "ExitStack_exit [] exc suppressed pending log = (exc, suppressed, pending, log)"
| "ExitStack_exit ((i, cb) # stack) exc suppressed pending log =
     (case cb exc of
        ExitReturns b \<Rightarrow>
          (if b then ExitStack_exit stack None True False (log @ [ExitScope i])
           else ExitStack_exit stack exc suppressed pending (log @ [ExitScope i]))
      | ExitRaises e \<Rightarrow> ExitStack_exit stack (Some e) suppressed True (log @ [ExitScope i]))"

text \<open>How \<^verbatim>\<open>handle_request\<close> ends: it returns a response, it returns \<^verbatim>\<open>None\<close> (the end
  of the function is reached), or it raises.\<close>

datatype outcome = Returns "response option" | Raises exn

text \<open>
  Leaving the \<^verbatim>\<open>with\<close> statement. A pending exception of a callback is raised. Otherwise
  an exception of the block is swallowed when a callback suppressed it, and then the function
  ends without a \<^verbatim>\<open>return\<close>; it is raised again when none did. A \<^verbatim>\<open>return\<close> of the
  block stands. (A pending raise always has its exception; the last case is never reached.)
\<close>

definition leave_with :: "block_outcome \<Rightarrow> exit_stack \<Rightarrow> event list \<Rightarrow> outcome \<times> event list" where
  "leave_with block stack log =
     (case ExitStack_exit stack (case block of BRaise e \<Rightarrow> Some e | BReturn _ \<Rightarrow> None)
             False False log of
        (exc, suppressed, pending, log') \<Rightarrow>
          (if pending then
             (case exc of
                Some e \<Rightarrow> (Raises e, log')
              | None \<Rightarrow> (Raises (OtherError ''exceptions must derive from BaseException''), log'))
           else
             (case block of
                BRaise e \<Rightarrow> if suppressed then (Returns None, log') else (Raises e, log')
              | BReturn r \<Rightarrow> (Returns (Some r), log'))))"

subsection \<open>\<^verbatim>\<open>handle_request\<close>\<close>

text \<open>\<^verbatim>\<open>request.body\<close>, read when it has a \<^verbatim>\<open>read\<close> method.\<close>

definition request_data :: "body \<Rightarrow> bytes option" where
  "request_data b = (case b of NoBody \<Rightarrow> None | BodyBytes d \<Rightarrow> Some d | BodyStream d \<Rightarrow> Some d)"

text \<open>\<^verbatim>\<open>path\<close> and \<^verbatim>\<open>open_kwargs\<close>, given the host name.\<close>

definition open_kwargs :: "urlobject \<Rightarrow> request \<Rightarrow> string \<Rightarrow> invocation" where
  "open_kwargs url request remote_addr =
     \<lparr>inv_path = app_path (url_text url),
      inv_method = upper (req_method request),
      inv_headers = req_headers request,
      inv_data = request_data (req_body request),
      inv_remote_addr = remote_addr,
      inv_base_url = scheme url @ ''://'' @ netloc url\<rparr>"

text \<open>The response built from the application's one, from \<^verbatim>\<open>requests.Response()\<close> to
  \<^verbatim>\<open>returned.raw\<close>. \<^verbatim>\<open>_IOReader(resp_data) or _IOReader(b'')\<close> is its left operand:
  a \<^verbatim>\<open>BytesIO\<close> object is true whatever it holds.\<close>

definition translate_response ::
  "environment \<Rightarrow> urlobject \<Rightarrow> request \<Rightarrow> app_response \<Rightarrow> bytes \<Rightarrow> response" where
  "translate_response env url request resp resp_data =
     (let returned = new_Response
            \<lparr>resp_url := Some (url_text url),
             status_code := Some (app_status_code resp),
             reason := responses env (app_status_code resp),
             resp_request := Some request,
             content := Some resp_data,
             headers := update_headers [] (app_headers resp)\<rparr>
      in returned
           \<lparr>raw := Some \<lparr>raw_status = status_code returned,
                         raw_reason = reason returned,
                         raw_headers = headers returned,
                         raw_body = IOReader resp_data,
                         decode_content = False,
                         preload_content = False\<rparr>\<rparr>)"

text \<open>The block of the \<^verbatim>\<open>with\<close> statement after the loop: the application is invoked,
  its response translated, the cookies extracted.\<close>

definition invoke_application ::
  "environment \<Rightarrow> urlobject \<Rightarrow> request \<Rightarrow> invocation \<Rightarrow> cookie_jar \<Rightarrow> block_outcome \<times> cookie_jar" where
  "invoke_application env url request kwargs session =
     (case test_client_open env kwargs of
        Inl e \<Rightarrow> (BRaise e, session)
      | Inr resp \<Rightarrow>
          (case (if headers_get (app_headers resp) ''content-encoding'' = Some ''gzip''
                 then gzip_decompress env (app_data resp)
                 else Inr (app_data resp)) of
             Inl e \<Rightarrow> (BRaise e, session)
           | Inr resp_data \<Rightarrow>
               (case extract_cookies_into env session request resp
                       (translate_response env url request resp resp_data) of
                  (returned, session') \<Rightarrow> (BReturn returned, session'))))"

text \<open>
  \<^verbatim>\<open>handle_request(self, session, url, request)\<close>, with the handlers of
  \<^verbatim>\<open>self._request_context_handlers\<close>. The result is how the call ends, what it did in
  order, and the state afterwards.
\<close>

definition handle_request ::
  "environment \<Rightarrow> handler list \<Rightarrow> urlobject \<Rightarrow> request \<Rightarrow> process_state
     \<Rightarrow> outcome \<times> event list \<times> process_state" where
  "handle_request env handlers url request st =
     (if scheme url = [] then (Raises (AssertionError []), [], st)
      else
        case get_hostname env (hostname_cache st) of
          (remote_addr, cache) \<Rightarrow>
            (let kwargs = open_kwargs url request remote_addr;
                 st1 = st\<lparr>hostname_cache := cache\<rparr>
             in case enter_handlers handlers request 0 [] [] of
                  (Some early, stack, log) \<Rightarrow>
                    (case leave_with early stack log of
                       (out, log') \<Rightarrow> (out, log', st1))
                | (None, stack, log) \<Rightarrow>
                    (case invoke_application env url request kwargs (session_cookies st1) of
                       (block, session') \<Rightarrow>
                         (case leave_with block stack (log @ [AppOpen kwargs]) of
                            (out, log') \<Rightarrow> (out, log', st1\<lparr>session_cookies := session'\<rparr>)))))"

section \<open>Concrete inputs\<close>

text \<open>The inputs at which the theorems below are evaluated.\<close>

definition example_address :: pyobj where
  "example_address = PTuple [PStr ''localhost'', PInt 8080]"

definition other_address :: pyobj where
  "other_address = PTuple [PStr ''example.com'', PInt 443]"

definition empty_state :: loopback_state where
  "empty_state = \<lparr>registry = (\<lambda>a. None), registered_addresses = []\<rparr>"

definition busy_state :: loopback_state where
  "busy_state =
     \<lparr>registry = (\<lambda>a. None)(other_address \<mapsto> (0, True)),
      registered_addresses = [other_address]\<rparr>"

definition raising_body :: "loopback_state \<Rightarrow> exn option \<times> loopback_state" where
  "raising_body s = (Some (OtherError ''boom''), s)"

definition example_url :: string where
  "example_url = ''http://example.com/api/widgets?x=1''"

definition example_urlobject :: urlobject where
  "example_urlobject = \<lparr>url_text = example_url, scheme = ''http'', netloc = ''example.com''\<rparr>"

definition example_request :: request where
  "example_request = \<lparr>req_method = ''get'', req_url = example_url,
     req_headers = [(''Accept'', ''*/*'')], req_body = NoBody\<rparr>"

definition example_responses :: "int \<Rightarrow> string option" where
  "example_responses code =
     (if code = 200 then Some ''OK'' else if code = 403 then Some ''Forbidden'' else None)"

definition gzip_app :: "invocation \<Rightarrow> exn + app_response" where
  "gzip_app kwargs =
     Inr \<lparr>app_status_code = 200, app_headers = [(''Content-Encoding'', ''gzip'')],
          app_data = ''compressed''\<rparr>"

definition plain_app :: "invocation \<Rightarrow> exn + app_response" where
  "plain_app kwargs =
     Inr \<lparr>app_status_code = 200, app_headers = [(''Content-Type'', ''text/plain'')],
          app_data = ''hello''\<rparr>"

definition failing_app :: "invocation \<Rightarrow> exn + app_response" where
  "failing_app kwargs = Inl (OtherError ''application failed'')"

definition example_gzip_decompress :: "bytes \<Rightarrow> exn + bytes" where
  "example_gzip_decompress b =
     (if b = ''compressed'' then Inr ''hello'' else Inl (OtherError ''not a gzip file''))"

definition example_extract_cookies ::
  "(string \<Rightarrow> string list option \<Rightarrow> string list option) \<Rightarrow> request \<Rightarrow> cookie_jar \<Rightarrow> cookie_jar" where
  "example_extract_cookies lookup request jar =
     jar @ (case lookup ''Set-Cookie'' (Some []) of Some vs \<Rightarrow> vs | None \<Rightarrow> [])"

definition example_env :: "(invocation \<Rightarrow> exn + app_response) \<Rightarrow> environment" where
  "example_env app =
     \<lparr>test_client_open = app, responses = example_responses,
      gzip_decompress = example_gzip_decompress, getfqdn = ''localhost'',
      extract_cookies = example_extract_cookies\<rparr>"

definition initial_process :: process_state where
  "initial_process = \<lparr>hostname_cache = None, session_cookies = []\<rparr>"

definition plain_handler :: handler where
  "plain_handler request = Entered (\<lambda>exc. ExitReturns False)"

definition forbidding_handler :: "environment \<Rightarrow> handler" where
  "forbidding_handler env request = EnterRaises (new_CustomHTTPResponse env request 403)"

definition failing_exit_handler :: handler where
  "failing_exit_handler request = Entered (\<lambda>exc. ExitRaises (OtherError ''teardown failed''))"

definition suppressing_handler :: handler where
  "suppressing_handler request = Entered (\<lambda>exc. ExitReturns True)"

section \<open>Properties of the activation methods\<close>

lemma is_address_example: "is_address example_address" "is_address other_address"
  by (simp_all add: is_address_def example_address_def other_address_def)

lemma addresses_differ: "example_address \<noteq> other_address" "other_address \<noteq> example_address"
  by (simp_all add: example_address_def other_address_def)

lemma deactivate_address_shrinks:
  assumes "deactivate_address d a s = (None, s')"
  shows "length (registered_addresses s') < length (registered_addresses s)"
proof -
  from assms have mem: "a \<in> set (registered_addresses s)"
    and eq: "registered_addresses s' = removeAll a (registered_addresses s)"
    by (auto simp: deactivate_address_def set_remove_def
             split: if_splits prod.splits option.splits sum.splits)
  from mem eq show ?thesis
    by (simp add: length_removeAll_less)
qed

text \<open>
  C5. Take a well-formed address that is not active: not in the table of \<^verbatim>\<open>dispatch\<close> and
  not in the handler's set. \<^verbatim>\<open>activate_address\<close> returns, with the address registered to
  the handler and in its set, and \<^verbatim>\<open>deactivate_address\<close> of the same address then
  returns with the table and the set exactly as they were before the activation.
\<close>

theorem activate_deactivate_round_trip:
  assumes "is_address a" and "registry s a = None" and "a \<notin> set (registered_addresses s)"
  shows "case activate_address (spec_dispatch policy) self a ssl s of
           (r1, s1) \<Rightarrow> r1 = None \<and> registry s1 a = Some (self, ssl)
              \<and> a \<in> set (registered_addresses s1)
              \<and> deactivate_address (spec_dispatch policy) a s1 = (None, s)"
proof -
  from assms(2) have "(registry s)(a := None) = registry s"
    by (simp add: fun_upd_idem)
  with assms show ?thesis
    by (simp add: activate_address_def deactivate_address_def spec_dispatch_def
        spec_register_def spec_unregister_def set_add_def set_remove_def)
qed

theorem activate_deactivate_round_trip_witness:
  "is_address example_address \<and> registry busy_state example_address = None
   \<and> example_address \<notin> set (registered_addresses busy_state)
   \<and> activate_address (spec_dispatch NoOp) 0 example_address False busy_state
       = (None, \<lparr>registry = (\<lambda>a. None)(other_address \<mapsto> (0, True),
                                            example_address \<mapsto> (0, False)),
                 registered_addresses = [other_address, example_address]\<rparr>)
   \<and> deactivate_address (spec_dispatch NoOp) example_address
        \<lparr>registry = (\<lambda>a. None)(other_address \<mapsto> (0, True),
                                    example_address \<mapsto> (0, False)),
         registered_addresses = [other_address, example_address]\<rparr>
       = (None, busy_state)"
  using activate_deactivate_round_trip [where a = example_address and s = busy_state
      and policy = NoOp and self = 0 and ssl = False]
  by (simp add: is_address_example addresses_differ busy_state_def activate_address_def
      spec_dispatch_def spec_register_def set_add_def)

text \<open>
  C9. \<^verbatim>\<open>deactivate_address\<close> of a well-formed address that is not in the handler's set
  raises, whatever \<^verbatim>\<open>dispatch.unregister_loopback_handler\<close> does with the table: either
  that call raises or \<^verbatim>\<open>set.remove\<close> does. The handler's set is left as it was.
\<close>

theorem deactivate_inactive_raises:
  assumes "is_address a" and "a \<notin> set (registered_addresses s)"
  shows "\<exists>e s'. deactivate_address d a s = (Some e, s')
           \<and> registered_addresses s' = registered_addresses s"
  using assms
  by (auto simp: deactivate_address_def set_remove_def split: prod.splits option.splits)

theorem deactivate_inactive_raises_witness:
  "is_address example_address \<and> example_address \<notin> set (registered_addresses empty_state)
   \<and> deactivate_address (spec_dispatch NoOp) example_address empty_state
       = (Some (KeyError example_address), empty_state)
   \<and> deactivate_address (spec_dispatch FailNotRegistered) example_address empty_state
       = (Some (NotRegistered example_address), empty_state)"
  using deactivate_inactive_raises [where a = example_address and s = empty_state
      and d = "spec_dispatch NoOp"]
  by (simp add: is_address_example empty_state_def deactivate_address_def spec_dispatch_def
      spec_unregister_def set_remove_def)

text \<open>
  C10. Two activations of one well-formed address on one handler both return, and the second
  leaves the handler's set as the first left it, with the address in it. One
  \<^verbatim>\<open>deactivate_address\<close> then returns, and the address is neither in the handler's set nor
  in the table of \<^verbatim>\<open>dispatch\<close>.
\<close>

theorem double_activation_single_deactivation:
  assumes "is_address a"
  shows "case activate_address (spec_dispatch policy) self a ssl s of
           (r1, s1) \<Rightarrow>
             (case activate_address (spec_dispatch policy) self a ssl' s1 of
                (r2, s2) \<Rightarrow>
                  (case deactivate_address (spec_dispatch policy) a s2 of
                     (r3, s3) \<Rightarrow>
                       r1 = None \<and> r2 = None \<and> r3 = None
                       \<and> a \<in> set (registered_addresses s1)
                       \<and> registered_addresses s2 = registered_addresses s1
                       \<and> a \<notin> set (registered_addresses s3)
                       \<and> registry s3 a = None))"
  using assms
  by (simp add: activate_address_def deactivate_address_def spec_dispatch_def spec_register_def
      spec_unregister_def set_add_def set_remove_def)

theorem double_activation_single_deactivation_witness:
  "is_address example_address
   \<and> registered_addresses (snd (activate_address (spec_dispatch NoOp) 0 example_address True
         (snd (activate_address (spec_dispatch NoOp) 0 example_address False empty_state))))
       = [example_address]
   \<and> deactivate_address (spec_dispatch NoOp) example_address
        (snd (activate_address (spec_dispatch NoOp) 0 example_address True
           (snd (activate_address (spec_dispatch NoOp) 0 example_address False empty_state))))
       = (None, empty_state)"
  using double_activation_single_deactivation [where a = example_address and s = empty_state
      and policy = NoOp and self = 0 and ssl = False and ssl' = True]
  by (simp add: is_address_example empty_state_def activate_address_def deactivate_address_def
      spec_dispatch_def spec_register_def spec_unregister_def set_add_def set_remove_def)

lemma deactivate_all_spec:
  assumes "\<forall>a\<in>set (registered_addresses s). is_address a \<and> registry s a \<noteq> None"
  shows "deactivate_all (spec_dispatch policy) s =
           (None, s\<lparr>registry := (\<lambda>a. if a \<in> set (registered_addresses s) then None else registry s a),
                     registered_addresses := []\<rparr>)"
  using assms
proof (induction "length (registered_addresses s)" arbitrary: s rule: less_induct)
  case less
  show ?case
  proof (cases "registered_addresses s")
    case Nil
    then show ?thesis by (simp add: deactivate_all.simps [of _ s])
  next
    case (Cons a xs)
    define s' where "s' = s\<lparr>registry := (registry s)(a := None),
                            registered_addresses := removeAll a (registered_addresses s)\<rparr>"
    have da: "deactivate_address (spec_dispatch policy) a s = (None, s')"
      using less.prems Cons
      by (auto simp: deactivate_address_def spec_dispatch_def spec_unregister_def
          set_remove_def s'_def)
    have len: "length (registered_addresses s') < length (registered_addresses s)"
      using da by (rule deactivate_address_shrinks)
    have inv: "\<forall>b\<in>set (registered_addresses s'). is_address b \<and> registry s' b \<noteq> None"
      using less.prems by (auto simp: s'_def)
    have "deactivate_all (spec_dispatch policy) s = deactivate_all (spec_dispatch policy) s'"
      using Cons da by (simp add: deactivate_all.simps [of _ s])
    also have "\<dots> = (None, s'\<lparr>registry := (\<lambda>b. if b \<in> set (registered_addresses s') then None else registry s' b),
                     registered_addresses := []\<rparr>)"
      using less.hyps [OF len inv] .
    also have "\<dots> = (None, s\<lparr>registry := (\<lambda>b. if b \<in> set (registered_addresses s) then None else registry s b),
                     registered_addresses := []\<rparr>)"
      using Cons by (auto simp: s'_def fun_eq_iff)
    finally show ?thesis .
  qed
qed

lemma activate_each_spec:
  assumes "\<forall>a\<in>set addrs. is_address a"
  shows "\<exists>s1. activate_each (spec_dispatch policy) self addrs s = (None, s1)
           \<and> set (registered_addresses s1) = set (registered_addresses s) \<union> set addrs
           \<and> (\<forall>a. registry s1 a = (if a \<in> set addrs then Some (self, False) else registry s a))"
  using assms
proof (induction addrs arbitrary: s)
  case Nil
  then show ?case by simp
next
  case (Cons a addrs)
  define s' where "s' = s\<lparr>registry := (registry s)(a \<mapsto> (self, False)),
                          registered_addresses := set_add a (registered_addresses s)\<rparr>"
  have aa: "activate_address (spec_dispatch policy) self a False s = (None, s')"
    using Cons.prems
    by (simp add: activate_address_def spec_dispatch_def spec_register_def s'_def)
  from Cons.IH [of s'] Cons.prems obtain s1 where
    s1: "activate_each (spec_dispatch policy) self addrs s' = (None, s1)"
      "set (registered_addresses s1) = set (registered_addresses s') \<union> set addrs"
      "\<forall>b. registry s1 b = (if b \<in> set addrs then Some (self, False) else registry s' b)"
    by auto
  show ?case
    using aa s1 by (auto simp: s'_def set_add_def)
qed

text \<open>
  C6. Take a handler whose active addresses, if it has any, are well-formed and registered.
  The activations of any list of well-formed addresses on it return, and its set then holds
  these addresses as well, each registered to it. \<^verbatim>\<open>deactivate_all\<close> then returns with the
  handler's set empty, none of its addresses in the table and every other entry of the table
  as it was; a second \<^verbatim>\<open>deactivate_all\<close>, on the handler that now owns nothing, returns and
  changes nothing.
\<close>

theorem deactivate_all_after_activations:
  assumes "\<forall>a\<in>set addrs. is_address a"
    and "\<forall>a\<in>set (registered_addresses s). is_address a \<and> registry s a \<noteq> None"
  shows "case activate_each (spec_dispatch policy) self addrs s of
           (r1, s1) \<Rightarrow>
             r1 = None
             \<and> set (registered_addresses s1) = set (registered_addresses s) \<union> set addrs
             \<and> (\<forall>a\<in>set addrs. registry s1 a = Some (self, False))
             \<and> (case deactivate_all (spec_dispatch policy) s1 of
                  (r2, s2) \<Rightarrow>
                    r2 = None \<and> registered_addresses s2 = []
                    \<and> (\<forall>a\<in>set (registered_addresses s) \<union> set addrs. registry s2 a = None)
                    \<and> (\<forall>a. a \<notin> set (registered_addresses s) \<union> set addrs
                           \<longrightarrow> registry s2 a = registry s a)
                    \<and> deactivate_all (spec_dispatch policy) s2 = (None, s2))"
proof -
  from activate_each_spec [OF assms(1), of policy self s] obtain s1 where
    s1: "activate_each (spec_dispatch policy) self addrs s = (None, s1)"
      "set (registered_addresses s1) = set (registered_addresses s) \<union> set addrs"
      "\<forall>a. registry s1 a = (if a \<in> set addrs then Some (self, False) else registry s a)"
    by auto
  have inv: "\<forall>a\<in>set (registered_addresses s1). is_address a \<and> registry s1 a \<noteq> None"
    using s1 assms by auto
  show ?thesis
    using s1 deactivate_all_spec [OF inv, of policy]
    by (simp add: deactivate_all.simps [of _ "s1\<lparr>registry := _, registered_addresses := []\<rparr>"])
qed

theorem deactivate_all_after_activations_witness:
  "is_address example_address \<and> is_address other_address
   \<and> registered_addresses busy_state = [other_address]
   \<and> registry busy_state other_address = Some (0, True)
   \<and> registered_addresses
        (snd (activate_each (spec_dispatch NoOp) 0 [example_address, other_address] busy_state))
       = [other_address, example_address]
   \<and> deactivate_all (spec_dispatch NoOp)
        (snd (activate_each (spec_dispatch NoOp) 0 [example_address, other_address] busy_state))
       = (None, empty_state)"
  using deactivate_all_after_activations [where addrs = "[example_address, other_address]"
      and s = busy_state and policy = NoOp and self = 0]
  by (simp add: is_address_example busy_state_def empty_state_def activate_address_def
      deactivate_address_def spec_dispatch_def spec_register_def spec_unregister_def
      set_add_def set_remove_def addresses_differ fun_eq_iff)

text \<open>
  The scope body that deactivates the address itself: the exit of \<^verbatim>\<open>on\<close> then raises,
  \<^verbatim>\<open>KeyError\<close> from \<^verbatim>\<open>set.remove\<close> or \<open>NotRegistered\<close> from the registry, although the
  body completed.
\<close>

theorem on_raises_after_inner_deactivation:
  "on (spec_dispatch NoOp) 0 example_address False
      (deactivate_address (spec_dispatch NoOp) example_address) empty_state
     = (Some (KeyError example_address), empty_state)
   \<and> on (spec_dispatch FailNotRegistered) 0 example_address False
      (deactivate_address (spec_dispatch FailNotRegistered) example_address) empty_state
     = (Some (NotRegistered example_address), empty_state)"
  by (auto simp: on_def is_address_example empty_state_def activate_address_def
      deactivate_address_def spec_dispatch_def spec_register_def spec_unregister_def
      set_add_def set_remove_def fun_eq_iff)

text \<open>
  C4. For a well-formed address whose activation returns, \<^verbatim>\<open>on\<close> has the address in the
  handler's set when the body starts, and ends with \<^verbatim>\<open>deactivate_address\<close> on the state
  the body left, whether the body completed or raised. When the address is still in the
  handler's set and \<^verbatim>\<open>dispatch\<close> unregisters it, the exit does not raise: the address is
  removed from the set and the scope ends as the body did. When the body has removed the
  address from the handler's set, the exit raises.
\<close>

theorem on_scope_exit:
  assumes "is_address a"
    and "activate_address d self a ssl s = (None, sa)"
    and "scope_body sa = (r, sb)"
  shows "a \<in> set (registered_addresses sa)
     \<and> on d self a ssl scope_body s =
         (case deactivate_address d a sb of (Some e, sc) \<Rightarrow> (Some e, sc) | (None, sc) \<Rightarrow> (r, sc))
     \<and> (a \<in> set (registered_addresses sb) \<longrightarrow>
          (\<forall>rc. unregister_loopback_handler d a (registry sb) = (None, rc) \<longrightarrow>
             on d self a ssl scope_body s =
               (r, sb\<lparr>registry := rc,
                       registered_addresses := removeAll a (registered_addresses sb)\<rparr>)))
     \<and> (a \<notin> set (registered_addresses sb) \<longrightarrow> fst (on d self a ssl scope_body s) \<noteq> None)"
proof -
  have entered: "a \<in> set (registered_addresses sa)"
    using assms(1,2)
    by (auto simp: activate_address_def set_add_def split: prod.splits option.splits if_splits)
  have unfold: "on d self a ssl scope_body s =
      (case deactivate_address d a sb of (Some e, sc) \<Rightarrow> (Some e, sc) | (None, sc) \<Rightarrow> (r, sc))"
    using assms(2,3) by (simp add: on_def)
  have still: "on d self a ssl scope_body s =
      (r, sb\<lparr>registry := rc, registered_addresses := removeAll a (registered_addresses sb)\<rparr>)"
    if "a \<in> set (registered_addresses sb)"
      and "unregister_loopback_handler d a (registry sb) = (None, rc)" for rc
    using that assms(1) unfold by (simp add: deactivate_address_def set_remove_def)
  have gone: "fst (on d self a ssl scope_body s) \<noteq> None"
    if "a \<notin> set (registered_addresses sb)"
    using that assms(1) unfold
    by (auto simp: deactivate_address_def set_remove_def split: prod.splits option.splits)
  from entered unfold still gone show ?thesis by blast
qed

theorem on_scope_exit_witness:
  "is_address example_address
   \<and> activate_address (spec_dispatch NoOp) 0 example_address False empty_state
       = (None, \<lparr>registry = (\<lambda>a. None)(example_address \<mapsto> (0, False)),
                 registered_addresses = [example_address]\<rparr>)
   \<and> on (spec_dispatch NoOp) 0 example_address False raising_body empty_state
       = (Some (OtherError ''boom''), empty_state)"
  using on_scope_exit [where a = example_address and d = "spec_dispatch NoOp" and self = 0
      and ssl = False and s = empty_state and scope_body = raising_body
      and sa = "\<lparr>registry = (\<lambda>a. None)(example_address \<mapsto> (0, False)),
                 registered_addresses = [example_address]\<rparr>"
      and r = "Some (OtherError ''boom'')"
      and sb = "\<lparr>registry = (\<lambda>a. None)(example_address \<mapsto> (0, False)),
                 registered_addresses = [example_address]\<rparr>"]
  by (simp add: is_address_example empty_state_def activate_address_def raising_body_def
      deactivate_address_def spec_dispatch_def spec_register_def spec_unregister_def
      set_add_def set_remove_def fun_eq_iff)

section \<open>Properties of the body reader\<close>



section \<open>Properties of the dispatch\<close>

lemmas ex_defs = example_env_def example_urlobject_def example_request_def example_url_def
  initial_process_def plain_handler_def forbidding_handler_def failing_exit_handler_def
  suppressing_handler_def gzip_app_def plain_app_def failing_app_def example_gzip_decompress_def
  example_extract_cookies_def example_responses_def

lemmas hr_defs = handle_request_def get_hostname_def open_kwargs_def leave_with_def
  invoke_application_def new_CustomHTTPResponse_def new_Response_def

lemma split_step:
  assumes "sep \<notin> set a"
  shows "split sep (Suc n) (a @ sep # r) = a # split sep n r"
proof -
  have "takeWhile (\<lambda>c. c \<noteq> sep) (a @ sep # r) = a"
    using assms by (induction a) auto
  moreover have "dropWhile (\<lambda>c. c \<noteq> sep) (a @ sep # r) = sep # r"
    using assms by (induction a) auto
  ultimately show ?thesis by simp
qed

text \<open>
  The target URL \<^verbatim>\<open>http://example.com/api/widgets?x=1\<close>: the path handed to the application
  is \<^verbatim>\<open>/api/widgets?x=1\<close>, not \<^verbatim>\<open>/widgets?x=1\<close>. The three cuts fall after \<^verbatim>\<open>http:\<close>,
  after the empty segment and after \<^verbatim>\<open>example.com\<close>; \<^verbatim>\<open>api\<close> stays.
\<close>

theorem app_path_example_is_not_widgets:
  "inv_path (open_kwargs example_urlobject example_request ''localhost'') = ''/api/widgets?x=1''
   \<and> inv_path (open_kwargs example_urlobject example_request ''localhost'') \<noteq> ''/widgets?x=1''"
  by (simp add: open_kwargs_def app_path_def example_urlobject_def example_url_def
      numeral_3_eq_3)

text \<open>
  C1. When the URL string is three segments without \<^verbatim>\<open>/\<close>, each followed by \<^verbatim>\<open>/\<close>, and
  then a rest, the path that \<^verbatim>\<open>handle_request\<close> hands to the application is \<^verbatim>\<open>/\<close>
  followed by that rest: everything after the third \<^verbatim>\<open>/\<close> of the URL string. For
  \<^verbatim>\<open>http://example.com/api/widgets?x=1\<close> this is \<^verbatim>\<open>/api/widgets?x=1\<close>.
\<close>

theorem app_path_after_third_slash:
  assumes "CHR ''/'' \<notin> set a" and "CHR ''/'' \<notin> set b" and "CHR ''/'' \<notin> set c"
    and "url_text url = a @ ''/'' @ b @ ''/'' @ c @ ''/'' @ rest"
  shows "inv_path (open_kwargs url request remote_addr) = ''/'' @ rest"
proof -
  have "split (CHR ''/'') 3 (url_text url) = [a, b, c, rest]"
    using assms by (simp add: numeral_3_eq_3 split_step del: split.simps(2))
  then show ?thesis
    by (simp add: open_kwargs_def app_path_def)
qed

theorem app_path_after_third_slash_witness:
  "CHR ''/'' \<notin> set ''http:'' \<and> CHR ''/'' \<notin> set '''' \<and> CHR ''/'' \<notin> set ''example.com''
   \<and> url_text example_urlobject = ''http:'' @ ''/'' @ '''' @ ''/'' @ ''example.com'' @ ''/'' @ ''api/widgets?x=1''
   \<and> inv_path (open_kwargs example_urlobject example_request ''localhost'') = ''/api/widgets?x=1''"
  using app_path_after_third_slash [where a = "''http:''" and b = "''''" and c = "''example.com''"
      and rest = "''api/widgets?x=1''" and url = example_urlobject and request = example_request
      and remote_addr = "''localhost''"]
  by (simp add: example_urlobject_def example_url_def)

lemma ExitStack_exit_log:
  "snd (snd (snd (ExitStack_exit stack exc suppressed pending log)))
     = log @ map (\<lambda>(i, cb). ExitScope i) stack"
  by (induction stack arbitrary: exc suppressed pending log)
     (auto split: exit_result.splits)

lemma leave_with_log:
  "snd (leave_with block stack log) = log @ map (\<lambda>(i, cb). ExitScope i) stack"
  using ExitStack_exit_log [of stack "case block of BRaise e \<Rightarrow> Some e | BReturn _ \<Rightarrow> None"
      False False log]
  by (auto simp: leave_with_def split: prod.splits option.splits block_outcome.splits)

lemma ExitStack_exit_unraised:
  assumes "\<forall>(i, cb)\<in>set stack. \<exists>b. cb None = ExitReturns b"
  shows "\<exists>suppressed'. ExitStack_exit stack None suppressed False log
           = (None, suppressed', False, log @ map (\<lambda>(i, cb). ExitScope i) stack)"
  using assms
proof (induction stack arbitrary: suppressed log)
  case Nil
  then show ?case by simp
next
  case (Cons p stack)
  obtain i cb where p: "p = (i, cb)" by (cases p)
  from Cons.prems p obtain b where b: "cb None = ExitReturns b" by auto
  from Cons.prems have rest: "\<forall>(i, cb)\<in>set stack. \<exists>b. cb None = ExitReturns b" by simp
  show ?case
    using Cons.IH [OF rest, of True "log @ [ExitScope i]"]
      Cons.IH [OF rest, of suppressed "log @ [ExitScope i]"]
    by (cases b) (auto simp: p b)
qed

lemma ExitStack_exit_unsuppressed:
  assumes "\<forall>(i, cb)\<in>set stack. cb exc = ExitReturns False"
  shows "ExitStack_exit stack exc suppressed pending log
           = (exc, suppressed, pending, log @ map (\<lambda>(i, cb). ExitScope i) stack)"
  using assms
  by (induction stack arbitrary: log) auto

lemma enter_handlers_prefix:
  assumes "\<forall>p\<in>set pre. \<exists>ex. p request = Entered ex"
  shows "\<exists>entered. enter_handlers (pre @ rest) request i stack log
             = enter_handlers rest request (i + length pre) (entered @ stack)
                 (log @ map EnterScope [i..<i + length pre])
           \<and> map fst entered = rev [i..<i + length pre]
           \<and> (\<forall>(j, cb)\<in>set entered. \<exists>p\<in>set pre. p request = Entered cb)"
  using assms
proof (induction pre arbitrary: i stack log)
  case Nil
  then show ?case by simp
next
  case (Cons h pre)
  from Cons.prems obtain ex where ex: "h request = Entered ex" by auto
  from Cons.prems have rest: "\<forall>p\<in>set pre. \<exists>ex. p request = Entered ex" by simp
  from Cons.IH [OF rest, of "Suc i" "(i, ex) # stack" "log @ [EnterScope i]"]
  obtain entered where e:
    "enter_handlers (pre @ rest) request (Suc i) ((i, ex) # stack) (log @ [EnterScope i])
       = enter_handlers rest request (Suc i + length pre) (entered @ (i, ex) # stack)
           ((log @ [EnterScope i]) @ map EnterScope [Suc i..<Suc i + length pre])"
    "map fst entered = rev [Suc i..<Suc i + length pre]"
    "\<forall>(j, cb)\<in>set entered. \<exists>p\<in>set pre. p request = Entered cb"
    by blast
  have upt: "[i..<Suc (i + length pre)] = i # [Suc i..<Suc (i + length pre)]"
    by (simp add: upt_conv_Cons del: upt_Suc)
  show ?case
  proof (intro exI [of _ "entered @ [(i, ex)]"] conjI)
    show "enter_handlers ((h # pre) @ rest) request i stack log
        = enter_handlers rest request (i + length (h # pre)) ((entered @ [(i, ex)]) @ stack)
            (log @ map EnterScope [i..<i + length (h # pre)])"
      using e(1) ex by (simp add: upt del: upt_Suc)
    show "map fst (entered @ [(i, ex)]) = rev [i..<i + length (h # pre)]"
      using e(2) by (simp add: upt del: upt_Suc)
    show "\<forall>(j, cb)\<in>set (entered @ [(i, ex)]). \<exists>p\<in>set (h # pre). p request = Entered cb"
      using e(3) ex by auto
  qed
qed

lemma enter_handlers_log:
  "\<exists>k. k \<le> length handlers
     \<and> snd (snd (enter_handlers handlers request i stack log)) = log @ map EnterScope [i..<i + k]
     \<and> map fst (fst (snd (enter_handlers handlers request i stack log)))
         = rev [i..<i + k] @ map fst stack"
proof (induction handlers arbitrary: i stack log)
  case Nil
  show ?case by simp
next
  case (Cons h handlers)
  show ?case
  proof (cases "h request")
    case (Entered ex)
    from Cons.IH [of "Suc i" "(i, ex) # stack" "log @ [EnterScope i]"]
    obtain k where k: "k \<le> length handlers"
      "snd (snd (enter_handlers handlers request (Suc i) ((i, ex) # stack) (log @ [EnterScope i])))
         = (log @ [EnterScope i]) @ map EnterScope [Suc i..<Suc i + k]"
      "map fst (fst (snd (enter_handlers handlers request (Suc i) ((i, ex) # stack)
           (log @ [EnterScope i]))))
         = rev [Suc i..<Suc i + k] @ map fst ((i, ex) # stack)"
      by blast
    have upt: "[i..<Suc (i + k)] = i # [Suc i..<Suc (i + k)]"
      by (simp add: upt_conv_Cons del: upt_Suc)
    show ?thesis
      using k Entered by (intro exI [of _ "Suc k"]) (simp add: upt del: upt_Suc)
  next
    case (EnterRaises e)
    then show ?thesis
      by (intro exI [of _ 0]) (simp split: exn.splits)
  qed
qed

lemma exit_events: "map (\<lambda>(i, cb). ExitScope i) stack = map ExitScope (map fst stack)"
  by (induction stack) auto

lemma leave_with_return:
  assumes "\<forall>(i, cb)\<in>set stack. \<exists>b. cb None = ExitReturns b"
  shows "leave_with (BReturn r) stack log
           = (Returns (Some r), log @ map ExitScope (map fst stack))"
proof -
  from ExitStack_exit_unraised [OF assms, of False log] obtain suppressed' where
    "ExitStack_exit stack None False False log
       = (None, suppressed', False, log @ map (\<lambda>(i, cb). ExitScope i) stack)"
    by blast
  then show ?thesis
    by (simp add: leave_with_def exit_events)
qed

lemma leave_with_raise:
  assumes "\<forall>(i, cb)\<in>set stack. cb (Some e) = ExitReturns False"
  shows "leave_with (BRaise e) stack log = (Raises e, log @ map ExitScope (map fst stack))"
  using ExitStack_exit_unsuppressed [OF assms, of False False log]
  by (simp add: leave_with_def exit_events)

lemma handle_request_log:
  assumes "scheme url \<noteq> []"
    and "enter_handlers handlers request 0 [] [] = (res, stack, log)"
  shows "fst (snd (handle_request env handlers url request st))
     = log @ (case res of
                None \<Rightarrow> [AppOpen (open_kwargs url request (fst (get_hostname env (hostname_cache st))))]
              | Some early \<Rightarrow> [])
         @ map ExitScope (map fst stack)"
proof (cases res)
  case None
  obtain block session' where
    "invoke_application env url request
       (open_kwargs url request (fst (get_hostname env (hostname_cache st))))
       (session_cookies st) = (block, session')"
    by (cases "invoke_application env url request
       (open_kwargs url request (fst (get_hostname env (hostname_cache st))))
       (session_cookies st)")
  then show ?thesis
    using assms None
      leave_with_log [of block stack
        "log @ [AppOpen (open_kwargs url request (fst (get_hostname env (hostname_cache st))))]"]
    by (auto simp: handle_request_def Let_def exit_events split: prod.splits)
next
  case (Some early)
  then show ?thesis
    using assms leave_with_log [of early stack log]
    by (auto simp: handle_request_def Let_def exit_events split: prod.splits)
qed

lemma handle_request_invokes:
  assumes "scheme url \<noteq> []"
    and "\<forall>h\<in>set handlers. \<exists>ex. h request = Entered ex"
  shows "\<exists>entered.
      handle_request env handlers url request st =
        (case invoke_application env url request
                (open_kwargs url request (fst (get_hostname env (hostname_cache st))))
                (session_cookies st) of
           (block, session') \<Rightarrow>
             (case leave_with block entered
                     (map EnterScope [0..<length handlers]
                      @ [AppOpen (open_kwargs url request
                                    (fst (get_hostname env (hostname_cache st))))]) of
                (out, log') \<Rightarrow>
                  (out, log',
                   st\<lparr>hostname_cache := snd (get_hostname env (hostname_cache st)),
                      session_cookies := session'\<rparr>)))
      \<and> map fst entered = rev [0..<length handlers]
      \<and> (\<forall>(j, cb)\<in>set entered. \<exists>h\<in>set handlers. h request = Entered cb)"
proof -
  from enter_handlers_prefix [OF assms(2), of "[]" 0 "[]" "[]"] obtain entered where
    e: "enter_handlers handlers request 0 [] []
          = (None, entered, map EnterScope [0..<length handlers])"
      "map fst entered = rev [0..<length handlers]"
      "\<forall>(j, cb)\<in>set entered. \<exists>h\<in>set handlers. h request = Entered cb"
    by auto
  show ?thesis
    using assms(1) e
    by (intro exI [of _ entered]) (simp add: handle_request_def Let_def split: prod.splits)
qed

text \<open>
  A handler whose scope was entered and whose exit raises, before the handler that raises the
  signal: the exception of the exit leaves \<^verbatim>\<open>handle_request\<close> in place of the response.
\<close>

theorem exit_failure_replaces_custom_response:
  "forbidding_handler (example_env gzip_app) example_request
     = EnterRaises (new_CustomHTTPResponse (example_env gzip_app) example_request 403)
   \<and> fst (handle_request (example_env gzip_app)
         [failing_exit_handler, forbidding_handler (example_env gzip_app)]
         example_urlobject example_request initial_process)
     = Raises (OtherError ''teardown failed'')"
  by (simp add: ex_defs hr_defs)

text \<open>
  C2. Let the URL have a scheme, let the handlers before some handler all enter their scopes,
  and let that handler raise \<^verbatim>\<open>CustomHTTPResponse(request, c)\<close>. Then the dispatch enters
  those scopes in order and exits them in reverse order, and the application is not invoked.
  If moreover none of their exits raises, \<^verbatim>\<open>handle_request\<close> returns a response with
  status code \<open>c\<close>, the reason that \<^verbatim>\<open>httplib.responses\<close> gives for \<open>c\<close> (none when it
  has none), the URL of the request and the request itself.
\<close>

theorem custom_response_short_circuits:
  assumes "scheme url \<noteq> []"
    and "handlers = pre @ h # post"
    and "\<forall>p\<in>set pre. \<exists>ex. p request = Entered ex"
    and "h request = EnterRaises (new_CustomHTTPResponse env request c)"
  shows "fst (snd (handle_request env handlers url request st))
           = map EnterScope [0..<length pre] @ map ExitScope (rev [0..<length pre])
     \<and> (\<forall>kwargs. AppOpen kwargs \<notin> set (fst (snd (handle_request env handlers url request st))))
     \<and> ((\<forall>p\<in>set pre. \<forall>ex. p request = Entered ex \<longrightarrow> (\<exists>b. ex None = ExitReturns b)) \<longrightarrow>
          (\<exists>r. fst (handle_request env handlers url request st) = Returns (Some r)
             \<and> status_code r = Some c \<and> reason r = responses env c
             \<and> resp_url r = Some (req_url request) \<and> resp_request r = Some request))"
proof -
  define r where "r = new_Response\<lparr>resp_url := Some (req_url request), status_code := Some c,
                     reason := responses env c, resp_request := Some request\<rparr>"
  from enter_handlers_prefix [OF assms(3), of "h # post" 0 "[]" "[]"] obtain entered where
    e: "enter_handlers handlers request 0 [] []
          = (Some (BReturn r), entered, map EnterScope [0..<length pre])"
      "map fst entered = rev [0..<length pre]"
      "\<forall>(j, cb)\<in>set entered. \<exists>p\<in>set pre. p request = Entered cb"
    using assms(2,4) by (auto simp: new_CustomHTTPResponse_def r_def)
  have log: "fst (snd (handle_request env handlers url request st))
           = map EnterScope [0..<length pre] @ map ExitScope (rev [0..<length pre])"
    using handle_request_log [OF assms(1) e(1), of env st] e(2) by simp
  have no_open: "\<forall>kwargs. AppOpen kwargs \<notin> set (fst (snd (handle_request env handlers url request st)))"
    unfolding log by auto
  have returned: "\<exists>r. fst (handle_request env handlers url request st) = Returns (Some r)
             \<and> status_code r = Some c \<and> reason r = responses env c
             \<and> resp_url r = Some (req_url request) \<and> resp_request r = Some request"
    if benign: "\<forall>p\<in>set pre. \<forall>ex. p request = Entered ex \<longrightarrow> (\<exists>b. ex None = ExitReturns b)"
  proof -
    from e(3) benign have "\<forall>(i, cb)\<in>set entered. \<exists>b. cb None = ExitReturns b"
      by fastforce
    from leave_with_return [OF this, of r "map EnterScope [0..<length pre]"]
    have "fst (handle_request env handlers url request st) = Returns (Some r)"
      using assms(1) e(1) by (simp add: handle_request_def Let_def split: prod.splits)
    then show ?thesis
      by (intro exI [of _ r]) (simp add: r_def new_Response_def)
  qed
  from log no_open returned show ?thesis by blast
qed

theorem custom_response_short_circuits_witness:
  "scheme example_urlobject \<noteq> []
   \<and> plain_handler example_request = Entered (\<lambda>exc. ExitReturns False)
   \<and> forbidding_handler (example_env gzip_app) example_request
       = EnterRaises (new_CustomHTTPResponse (example_env gzip_app) example_request 403)
   \<and> fst (snd (handle_request (example_env gzip_app)
         [plain_handler, forbidding_handler (example_env gzip_app), plain_handler]
         example_urlobject example_request initial_process))
       = [EnterScope 0, ExitScope 0]
   \<and> fst (handle_request (example_env gzip_app)
         [plain_handler, forbidding_handler (example_env gzip_app), plain_handler]
         example_urlobject example_request initial_process)
       = Returns (Some (new_Response\<lparr>resp_url := Some example_url, status_code := Some 403,
                          reason := Some ''Forbidden'', resp_request := Some example_request\<rparr>))"
  using custom_response_short_circuits [where url = example_urlobject
      and handlers = "[plain_handler, forbidding_handler (example_env gzip_app), plain_handler]"
      and pre = "[plain_handler]" and h = "forbidding_handler (example_env gzip_app)"
      and post = "[plain_handler]" and request = example_request
      and env = "example_env gzip_app" and c = 403 and st = initial_process]
  by (simp add: ex_defs hr_defs)

text \<open>
  A handler whose exit returns true: the exception of the application is swallowed and
  \<^verbatim>\<open>handle_request\<close> returns \<^verbatim>\<open>None\<close>.
\<close>

theorem suppressing_scope_swallows_application_error:
  "test_client_open (example_env failing_app)
       (open_kwargs example_urlobject example_request ''localhost'')
     = Inl (OtherError ''application failed'')
   \<and> fst (handle_request (example_env failing_app) [suppressing_handler]
         example_urlobject example_request initial_process)
     = Returns None"
  by (simp add: ex_defs hr_defs)

text \<open>
  C3. In every dispatch the scopes entered are those of the first \<open>k\<close> handlers, in order,
  and the same scopes are exited, each once, in reverse order, after the application was
  invoked if it was: however the dispatch ends. When all handlers enter, the application
  raises an exception, and every exit, given that exception, returns false (it neither
  suppresses the exception nor raises), \<^verbatim>\<open>handle_request\<close> raises that same exception,
  after all the exits.
\<close>

theorem scopes_exit_in_reverse_order:
  "(\<exists>k opens. k \<le> length handlers
       \<and> fst (snd (handle_request env handlers url request st))
           = map EnterScope [0..<k] @ opens @ map ExitScope (rev [0..<k])
       \<and> (opens = [] \<or> opens = [AppOpen (open_kwargs url request
                                   (fst (get_hostname env (hostname_cache st))))]))
   \<and> (scheme url \<noteq> []
        \<and> (\<forall>h\<in>set handlers. \<exists>ex. h request = Entered ex \<and> ex (Some e) = ExitReturns False)
        \<and> test_client_open env (open_kwargs url request
               (fst (get_hostname env (hostname_cache st)))) = Inl e
      \<longrightarrow> fst (handle_request env handlers url request st) = Raises e
          \<and> fst (snd (handle_request env handlers url request st))
              = map EnterScope [0..<length handlers]
                @ [AppOpen (open_kwargs url request (fst (get_hostname env (hostname_cache st))))]
                @ map ExitScope (rev [0..<length handlers]))"
proof (intro conjI impI)
  show "\<exists>k opens. k \<le> length handlers
       \<and> fst (snd (handle_request env handlers url request st))
           = map EnterScope [0..<k] @ opens @ map ExitScope (rev [0..<k])
       \<and> (opens = [] \<or> opens = [AppOpen (open_kwargs url request
                                   (fst (get_hostname env (hostname_cache st))))])"
  proof (cases "scheme url = []")
    case True
    then show ?thesis
      by (intro exI [of _ 0] exI [of _ "[]"]) (simp add: handle_request_def)
  next
    case False
    obtain res stack log where eh: "enter_handlers handlers request 0 [] [] = (res, stack, log)"
      by (cases "enter_handlers handlers request 0 [] []")
    from enter_handlers_log [of handlers request 0 "[]" "[]"] eh obtain k where
      k: "k \<le> length handlers" "log = map EnterScope [0..<k]" "map fst stack = rev [0..<k]"
      by auto
    show ?thesis
      using handle_request_log [OF False eh, of env st] k
      by (intro exI [of _ k]
            exI [of _ "case res of
                None \<Rightarrow> [AppOpen (open_kwargs url request (fst (get_hostname env (hostname_cache st))))]
              | Some early \<Rightarrow> []"])
         (simp split: option.splits)
  qed
next
  assume a: "scheme url \<noteq> []
        \<and> (\<forall>h\<in>set handlers. \<exists>ex. h request = Entered ex \<and> ex (Some e) = ExitReturns False)
        \<and> test_client_open env (open_kwargs url request
               (fst (get_hostname env (hostname_cache st)))) = Inl e"
  then have all_enter: "\<forall>h\<in>set handlers. \<exists>ex. h request = Entered ex"
    by blast
  from a have scheme: "scheme url \<noteq> []" by blast
  from handle_request_invokes [OF scheme all_enter, of env st] obtain entered where
    hr: "handle_request env handlers url request st =
        (case invoke_application env url request
                (open_kwargs url request (fst (get_hostname env (hostname_cache st))))
                (session_cookies st) of
           (block, session') \<Rightarrow>
             (case leave_with block entered
                     (map EnterScope [0..<length handlers]
                      @ [AppOpen (open_kwargs url request
                                    (fst (get_hostname env (hostname_cache st))))]) of
                (out, log') \<Rightarrow>
                  (out, log',
                   st\<lparr>hostname_cache := snd (get_hostname env (hostname_cache st)),
                      session_cookies := session'\<rparr>)))"
    and fsts: "map fst entered = rev [0..<length handlers]"
    and from_handlers: "\<forall>(j, cb)\<in>set entered. \<exists>h\<in>set handlers. h request = Entered cb"
    by blast
  from from_handlers a have "\<forall>(i, cb)\<in>set entered. cb (Some e) = ExitReturns False"
    by fastforce
  from leave_with_raise [OF this] a hr fsts
  show "fst (handle_request env handlers url request st) = Raises e"
    and "fst (snd (handle_request env handlers url request st))
              = map EnterScope [0..<length handlers]
                @ [AppOpen (open_kwargs url request (fst (get_hostname env (hostname_cache st))))]
                @ map ExitScope (rev [0..<length handlers])"
    by (simp_all add: invoke_application_def)
qed

theorem scopes_exit_in_reverse_order_witness:
  "scheme example_urlobject \<noteq> []
   \<and> plain_handler example_request = Entered (\<lambda>exc. ExitReturns False)
   \<and> test_client_open (example_env failing_app)
        (open_kwargs example_urlobject example_request ''localhost'')
       = Inl (OtherError ''application failed'')
   \<and> handle_request (example_env failing_app) [plain_handler, plain_handler]
        example_urlobject example_request initial_process
       = (Raises (OtherError ''application failed''),
          [EnterScope 0, EnterScope 1,
           AppOpen (open_kwargs example_urlobject example_request ''localhost''),
           ExitScope 1, ExitScope 0],
          \<lparr>hostname_cache = Some ''localhost'', session_cookies = []\<rparr>)"
  using scopes_exit_in_reverse_order [where url = example_urlobject
      and handlers = "[plain_handler, plain_handler]" and request = example_request
      and env = "example_env failing_app" and st = initial_process
      and e = "OtherError ''application failed''"]
  by (simp add: ex_defs hr_defs)

text \<open>
  C7. Let the URL have a scheme, let all handlers enter and no exit raise, and let the
  application return a response. If its \<^verbatim>\<open>content-encoding\<close> header is \<^verbatim>\<open>gzip\<close> and its
  body decompresses to some bytes, \<^verbatim>\<open>handle_request\<close> returns a response whose content
  is these bytes. If the header is absent or has another value, \<^verbatim>\<open>handle_request\<close> returns
  a response whose content is the body unchanged.
\<close>

theorem gzip_body_is_decompressed:
  assumes "scheme url \<noteq> []"
    and "\<forall>h\<in>set handlers. \<exists>ex. h request = Entered ex \<and> (\<exists>b. ex None = ExitReturns b)"
    and "test_client_open env (open_kwargs url request
           (fst (get_hostname env (hostname_cache st)))) = Inr resp"
  shows "(headers_get (app_headers resp) ''content-encoding'' = Some ''gzip'' \<longrightarrow>
            (\<forall>original. gzip_decompress env (app_data resp) = Inr original \<longrightarrow>
               (\<exists>r. fst (handle_request env handlers url request st) = Returns (Some r)
                  \<and> content r = Some original)))
     \<and> (headers_get (app_headers resp) ''content-encoding'' \<noteq> Some ''gzip'' \<longrightarrow>
            (\<exists>r. fst (handle_request env handlers url request st) = Returns (Some r)
               \<and> content r = Some (app_data resp)))"
proof -
  from assms(2) have all_enter: "\<forall>h\<in>set handlers. \<exists>ex. h request = Entered ex"
    by blast
  from handle_request_invokes [OF assms(1) all_enter, of env st] obtain entered where
    hr: "handle_request env handlers url request st =
        (case invoke_application env url request
                (open_kwargs url request (fst (get_hostname env (hostname_cache st))))
                (session_cookies st) of
           (block, session') \<Rightarrow>
             (case leave_with block entered
                     (map EnterScope [0..<length handlers]
                      @ [AppOpen (open_kwargs url request
                                    (fst (get_hostname env (hostname_cache st))))]) of
                (out, log') \<Rightarrow>
                  (out, log',
                   st\<lparr>hostname_cache := snd (get_hostname env (hostname_cache st)),
                      session_cookies := session'\<rparr>)))"
    and from_handlers: "\<forall>(j, cb)\<in>set entered. \<exists>h\<in>set handlers. h request = Entered cb"
    by blast
  from from_handlers assms(2) have benign: "\<forall>(i, cb)\<in>set entered. \<exists>b. cb None = ExitReturns b"
    by fastforce
  have translated: "\<exists>r. fst (handle_request env handlers url request st) = Returns (Some r)
      \<and> content r = Some resp_data"
    if "(if headers_get (app_headers resp) ''content-encoding'' = Some ''gzip''
         then gzip_decompress env (app_data resp) else Inr (app_data resp)) = Inr resp_data"
    for resp_data
    using that assms(3) hr leave_with_return [OF benign]
    by (simp add: invoke_application_def extract_cookies_into_def translate_response_def
        Let_def)
  show ?thesis
    using translated by simp
qed

theorem gzip_body_is_decompressed_witness:
  "scheme example_urlobject \<noteq> []
   \<and> plain_handler example_request = Entered (\<lambda>exc. ExitReturns False)
   \<and> headers_get [(''Content-Encoding'', ''gzip'')] ''content-encoding'' = Some ''gzip''
   \<and> gzip_decompress (example_env gzip_app) ''compressed'' = Inr ''hello''
   \<and> (\<exists>r. fst (handle_request (example_env gzip_app) [plain_handler] example_urlobject
                 example_request initial_process) = Returns (Some r)
          \<and> content r = Some ''hello'')
   \<and> headers_get [(''Content-Type'', ''text/plain'')] ''content-encoding'' = None
   \<and> (\<exists>r. fst (handle_request (example_env plain_app) [plain_handler] example_urlobject
                 example_request initial_process) = Returns (Some r)
          \<and> content r = Some ''hello'')"
proof -
  have returns: "\<exists>b. \<not> b"
    by blast
  show ?thesis
    using returns
      gzip_body_is_decompressed [where url = example_urlobject and handlers = "[plain_handler]"
      and request = example_request and env = "example_env gzip_app" and st = initial_process
      and resp = "\<lparr>app_status_code = 200, app_headers = [(''Content-Encoding'', ''gzip'')],
          app_data = ''compressed''\<rparr>"]
    gzip_body_is_decompressed [where url = example_urlobject and handlers = "[plain_handler]"
      and request = example_request and env = "example_env plain_app" and st = initial_process
      and resp = "\<lparr>app_status_code = 200, app_headers = [(''Content-Type'', ''text/plain'')],
          app_data = ''hello''\<rparr>"]
    by (simp add: ex_defs get_hostname_def lower_def lower_char_def)
qed

end
